theory Spec2Isabelle
  imports Main "HOL-Library.Word"
begin

section \<open>The deferred and streaming response pipeline of http-simple\<close>

text \<open>
  A shallow embedding of \<^verbatim>\<open>pkg/service/respond.go\<close> and of the \<^verbatim>\<open>Request\<close> type of
  package \<^verbatim>\<open>service\<close>. Go functions that touch the response writer, a channel or a
  captured variable take the world and return it updated. A call that does not come
  back is a value of \<open>result\<close>: a nil function call panics, a receive on a channel that
  never delivers blocks.
\<close>

subsection \<open>Values\<close>

type_synonym byte = "8 word"
type_synonym bytes = "byte list"

text \<open>
  Go's \<^verbatim>\<open>error\<close> values. \<^verbatim>\<open>contracts.ErrContextDone\<close> is the sentinel of the stream
  library; any error may wrap another one, and \<^verbatim>\<open>errors.Is\<close> follows the chain.
\<close>

datatype error = ErrContextDone | ErrOther string | ErrWrap string error

fun errors_Is :: "error \<Rightarrow> error \<Rightarrow> bool" where
  "errors_Is (ErrWrap m e) target = (ErrWrap m e = target \<or> errors_Is e target)"
| "errors_Is e target = (e = target)"

text \<open>How a call ends: it returns a value, panics, or never returns.\<close>

datatype 'a result = Returns 'a | Panics | Blocks

subsection \<open>The response writer\<close>

text \<open>
  \<^verbatim>\<open>http.ResponseWriter\<close> belongs to the transport. It is modelled by what the code can
  see of it: the calls made on it, recorded in order, and the error each \<^verbatim>\<open>Write\<close>
  returns. \<open>script\<close> holds the outcomes of the coming \<^verbatim>\<open>Write\<close> calls, the next one first;
  when it is used up every further write succeeds. \<open>writes\<close> is every \<^verbatim>\<open>Write\<close> call so
  far, oldest first, with the error it returned.
\<close>

record ResponseWriter =
  header_sets :: "(string \<times> string) list"
  status_calls :: "int list"
  writes :: "(bytes \<times> error option) list"
  script :: "error option list"

definition Write :: "ResponseWriter \<Rightarrow> bytes \<Rightarrow> error option \<times> ResponseWriter" where
  "Write wr b =
     (let r = (case script wr of [] \<Rightarrow> None | x # _ \<Rightarrow> x)
      in (r, wr\<lparr>writes := writes wr @ [(b, r)], script := tl (script wr)\<rparr>))"

subsection \<open>The world\<close>

text \<open>
  Writers, channels and contexts are reference values in Go; here they are handles
  (numbers) into the world. For the stream built over channel \<open>c\<close>, \<open>feed s c\<close> is what
  its coming receive steps observe, in order: a chunk, the channel closed, or the
  context done. \<open>closes s c\<close> counts the \<^verbatim>\<open>Close\<close> calls on that stream. \<open>user\<close> is the
  state that closures of the caller capture.
\<close>

datatype event = Recv bytes | Closed | CtxDone

record 'u world =
  writers :: "nat \<Rightarrow> ResponseWriter"
  feed :: "nat \<Rightarrow> event list"
  closes :: "nat \<Rightarrow> nat"
  user :: 'u

definition WriterWrite :: "nat \<Rightarrow> bytes \<Rightarrow> 'u world \<Rightarrow> error option \<times> 'u world" where
  "WriterWrite w b s =
     (case Write (writers s w) b of
        (r, wr') \<Rightarrow> (r, s\<lparr>writers := (writers s)(w := wr')\<rparr>))"

subsection \<open>Request\<close>

definition SessionName :: string where
  "SessionName = ''http-session''"

record Request =
  req_id :: nat
  sessionName :: string
  httpRequest :: nat
  writer :: nat
  ctx :: nat

text \<open>\<^verbatim>\<open>uuid.New()\<close> is random: the fresh identifier is a parameter.\<close>

definition NewRequest :: "nat \<Rightarrow> nat \<Rightarrow> nat \<Rightarrow> nat \<Rightarrow> Request" where
  "NewRequest uid c h w =
     \<lparr>req_id = uid, sessionName = SessionName, httpRequest = h, writer = w, ctx = c\<rparr>"

definition ID :: "Request \<Rightarrow> nat" where
  "ID r = req_id r"

definition Context :: "Request \<Rightarrow> nat" where
  "Context r = ctx r"

definition HTTPRequest :: "Request \<Rightarrow> nat" where
  "HTTPRequest r = httpRequest r"

definition WithSessionName :: "Request \<Rightarrow> string \<Rightarrow> Request" where
  "WithSessionName r n = r\<lparr>sessionName := n\<rparr>"

definition SessionName_of :: "Request \<Rightarrow> string" where
  "SessionName_of r = sessionName r"

definition Writer :: "Request \<Rightarrow> nat" where
  "Writer r = writer r"

subsection \<open>Producers\<close>

text \<open>\<^verbatim>\<open>type ResponseDataFunc func() ([]byte, error)\<close>, run in a world.\<close>

type_synonym 'u ResponseDataFunc = "'u world \<Rightarrow> (bytes \<times> error option) result \<times> 'u world"

definition BinaryData :: "bytes \<Rightarrow> 'u ResponseDataFunc" where
  "BinaryData data = (\<lambda>s. (Returns (data, None), s))"

text \<open>A Go string is its bytes, so \<^verbatim>\<open>[]byte(data)\<close> is the identity here.\<close>

definition StringData :: "bytes \<Rightarrow> 'u ResponseDataFunc" where
  "StringData data = (\<lambda>s. (Returns (data, None), s))"

text \<open>\<^verbatim>\<open>json.Marshal\<close> is a parameter.\<close>

definition JSONData :: "('a \<Rightarrow> bytes \<times> error option) \<Rightarrow> 'a \<Rightarrow> 'u ResponseDataFunc" where
  "JSONData marshal data = (\<lambda>s. (Returns (marshal data), s))"

subsection \<open>The channel stream\<close>

text \<open>
  Modelled from the spec: \<^verbatim>\<open>stream.FromChanWithContext\<close>, \<^verbatim>\<open>Each\<close> and \<^verbatim>\<open>Close\<close> of the
  library \<^verbatim>\<open>collections-go\<close>, whose source is not part of this repository. After 4.2
  and 5 of the specification, the iterator waits for the next chunk or for the
  context's cancellation, whichever comes first; it hands each chunk to the callback
  and stops with the callback's error when there is one; it stops with no error when
  the channel is closed and with \<open>ErrContextDone\<close> when the context is done. A feed that
  runs out without closure or cancellation is a receive that waits for ever. What
  \<^verbatim>\<open>Close\<close> does to later receives is not known here: the feed is what the receive
  steps observe in either case, and \<^verbatim>\<open>Close\<close> is only counted.
\<close>

record chanStream =
  chan :: nat
  sctx :: nat

definition FromChanWithContext :: "nat \<Rightarrow> nat \<Rightarrow> chanStream" where
  "FromChanWithContext c k = \<lparr>chan = c, sctx = k\<rparr>"

fun each_events ::
  "event list \<Rightarrow> (bytes \<Rightarrow> 's \<Rightarrow> error option \<times> 's) \<Rightarrow> 's \<Rightarrow> error option result \<times> event list \<times> 's"
where
  "each_events [] f s = (Blocks, [], s)"
| "each_events (Closed # es) f s = (Returns None, es, s)"
| "each_events (CtxDone # es) f s = (Returns (Some ErrContextDone), es, s)"
| "each_events (Recv v # es) f s =
     (case f v s of
        (Some e, s') \<Rightarrow> (Returns (Some e), es, s')
      | (None, s') \<Rightarrow> each_events es f s')"

definition Each ::
  "chanStream \<Rightarrow> (bytes \<Rightarrow> 'u world \<Rightarrow> error option \<times> 'u world) \<Rightarrow> 'u world \<Rightarrow> error option result \<times> 'u world"
where
  "Each st f s =
     (case each_events (feed s (chan st)) f s of
        (r, es, s') \<Rightarrow> (r, s'\<lparr>feed := (feed s')(chan st := es)\<rparr>))"

text \<open>The error \<^verbatim>\<open>Close\<close> returns is only logged by the caller, so it is left out.\<close>

definition Close :: "chanStream \<Rightarrow> 'u world \<Rightarrow> 'u world" where
  "Close st s = s\<lparr>closes := (closes s)(chan st := Suc (closes s (chan st)))\<rparr>"

subsection \<open>BinaryStreamData\<close>

text \<open>
  The function literal that \<^verbatim>\<open>BinaryStreamData\<close> returns, over the stream \<open>st\<close> and the
  writer \<open>w\<close> it captured.
\<close>

definition BinaryStreamData_func :: "chanStream \<Rightarrow> nat \<Rightarrow> 'u ResponseDataFunc" where
  "BinaryStreamData_func st w =
     (\<lambda>s. let endOfStream = [] in
        case Each st (\<lambda>v. WriterWrite w v) s of
          (Returns err, s') \<Rightarrow>
            (case err of
               Some e \<Rightarrow>
                 if errors_Is e ErrContextDone then (Returns (endOfStream, None), s')
                 else (Returns (endOfStream, err), s')
             | None \<Rightarrow> (Returns (endOfStream, err), s'))
        | (Panics, s') \<Rightarrow> (Panics, s')
        | (Blocks, s') \<Rightarrow> (Blocks, s'))"

text \<open>
  \<^verbatim>\<open>BinaryStreamData\<close> itself: it builds the stream, reads the writer, and its deferred
  \<^verbatim>\<open>s.Close()\<close> runs when it returns the function literal, before any call of the latter.
\<close>

definition BinaryStreamData ::
  "nat \<Rightarrow> Request \<Rightarrow> nat \<Rightarrow> 'u world \<Rightarrow> 'u ResponseDataFunc \<times> 'u world"
where
  "BinaryStreamData k request c s =
     (let st = FromChanWithContext c k;
          w = Writer request
      in (BinaryStreamData_func st w, Close st s))"

subsection \<open>The builder and Send\<close>

text \<open>
  \<open>bodyFunc\<close> is a Go function value and can be nil: \<open>None\<close>. The pointers
  \<^verbatim>\<open>Response.state\<close> and \<^verbatim>\<open>responseBuilder.request\<close> are taken to be valid.
\<close>

record 'u responseBuilder =
  request :: Request
  bodyFunc :: "'u ResponseDataFunc option"

record 'u Response =
  state :: "'u responseBuilder"

definition ResponseBuilder :: "Request \<Rightarrow> 'u responseBuilder" where
  "ResponseBuilder r = \<lparr>request = r, bodyFunc = None\<rparr>"

definition WithHeader ::
  "'u responseBuilder \<Rightarrow> string \<Rightarrow> string \<Rightarrow> 'u world \<Rightarrow> 'u responseBuilder \<times> 'u world"
where
  "WithHeader r key val s =
     (let w = Writer (request r); wr = writers s w
      in (r, s\<lparr>writers := (writers s)(w := wr\<lparr>header_sets := header_sets wr @ [(key, val)]\<rparr>)\<rparr>))"

definition WithStatus ::
  "'u responseBuilder \<Rightarrow> int \<Rightarrow> 'u world \<Rightarrow> 'u responseBuilder \<times> 'u world"
where
  "WithStatus r status s =
     (let w = Writer (request r); wr = writers s w
      in (r, s\<lparr>writers := (writers s)(w := wr\<lparr>status_calls := status_calls wr @ [status]\<rparr>)\<rparr>))"

definition WithBody :: "'u responseBuilder \<Rightarrow> bytes \<Rightarrow> 'u responseBuilder" where
  "WithBody r body = r\<lparr>bodyFunc := Some (BinaryData body)\<rparr>"

definition WithBodyFunc ::
  "'u responseBuilder \<Rightarrow> 'u ResponseDataFunc option \<Rightarrow> 'u responseBuilder"
where
  "WithBodyFunc r f = r\<lparr>bodyFunc := f\<rparr>"

definition Send :: "'u Response \<Rightarrow> 'u world \<Rightarrow> error option result \<times> 'u world" where
  "Send r s =
     (case bodyFunc (state r) of
        None \<Rightarrow> (Panics, s)
      | Some f \<Rightarrow>
          (case f s of
             (Returns (body, Some e), s') \<Rightarrow> (Returns (Some e), s')
           | (Returns (body, None), s') \<Rightarrow>
               (case WriterWrite (Writer (request (state r))) body s' of
                  (Some e, s'') \<Rightarrow> (Returns (Some e), s'')
                | (None, s'') \<Rightarrow> (Returns None, s''))
           | (Panics, s') \<Rightarrow> (Panics, s')
           | (Blocks, s') \<Rightarrow> (Blocks, s')))"

subsection \<open>Vocabulary of the properties\<close>

text \<open>
  \<open>writes_ok n wr\<close>: the next \<open>n\<close> calls of \<^verbatim>\<open>Write\<close> on \<open>wr\<close> succeed. \<open>wrote cs wr\<close>: the
  writer \<open>wr\<close> after it has accepted the chunks \<open>cs\<close>, one \<^verbatim>\<open>Write\<close> call each, in order.
\<close>

definition writes_ok :: "nat \<Rightarrow> ResponseWriter \<Rightarrow> bool" where
  "writes_ok n wr = list_all (\<lambda>r. r = None) (take n (script wr))"

definition wrote :: "bytes list \<Rightarrow> ResponseWriter \<Rightarrow> ResponseWriter" where
  "wrote cs wr =
     wr\<lparr>writes := writes wr @ map (\<lambda>c. (c, None)) cs, script := drop (length cs) (script wr)\<rparr>"

text \<open>
  \<open>chunks_of es\<close>: the chunks among the events \<open>es\<close>, in order. \<open>taken s s' c\<close>: the events
  that a call which found the world \<open>s\<close> and left \<open>s'\<close> took from channel \<open>c\<close>.
\<close>

fun chunks_of :: "event list \<Rightarrow> bytes list" where
  "chunks_of [] = []"
| "chunks_of (Recv v # es) = v # chunks_of es"
| "chunks_of (ev # es) = chunks_of es"

definition taken :: "'u world \<Rightarrow> 'u world \<Rightarrow> nat \<Rightarrow> event list" where
  "taken s s' c = take (length (feed s c) - length (feed s' c)) (feed s c)"

text \<open>
  An observer, as a Go test writes it: \<^verbatim>\<open>func() ([]byte, error) { n++; return f() }\<close>,
  with the captured counter \<open>n\<close> kept in \<open>user\<close>.
\<close>

definition counted :: "nat ResponseDataFunc \<Rightarrow> nat ResponseDataFunc" where
  "counted f = (\<lambda>s. f (s\<lparr>user := Suc (user s)\<rparr>))"

text \<open>
  The methods of \<^verbatim>\<open>Request\<close> as operations on a request value. Only \<^verbatim>\<open>WithSessionName\<close>
  assigns to its receiver; the other methods read it.
\<close>

datatype request_op =
    OpID | OpContext | OpHTTPRequest | OpWithSessionName string
  | OpSessionName | OpWriter | OpResponseBuilder

fun request_step :: "Request \<Rightarrow> request_op \<Rightarrow> Request" where
  "request_step r (OpWithSessionName n) = WithSessionName r n"
| "request_step r opn = r"

text \<open>The builder calls that install no producer.\<close>

datatype builder_op = OpWithHeader string string | OpWithStatus int

fun builder_step ::
  "'u responseBuilder \<times> 'u world \<Rightarrow> builder_op \<Rightarrow> 'u responseBuilder \<times> 'u world"
where
  "builder_step (r, s) (OpWithHeader key val) = WithHeader r key val s"
| "builder_step (r, s) (OpWithStatus code) = WithStatus r code s"

subsection \<open>Example worlds\<close>

definition blank_writer :: ResponseWriter where
  "blank_writer = \<lparr>header_sets = [], status_calls = [], writes = [], script = []\<rparr>"

text \<open>Every channel is fed \<open>es\<close>, every writer answers its coming writes with \<open>sc\<close>.\<close>

definition test_world :: "event list \<Rightarrow> error option list \<Rightarrow> nat world" where
  "test_world es sc =
     \<lparr>writers = (\<lambda>_. blank_writer\<lparr>script := sc\<rparr>), feed = (\<lambda>_. es), closes = (\<lambda>_. 0), user = 0\<rparr>"

definition test_request :: Request where
  "test_request = NewRequest 1 0 0 0"

definition broken_pipe :: error where
  "broken_pipe = ErrOther ''broken pipe''"

text \<open>
  A response over the streaming producer: two chunks and closure on the channel, a
  writer that takes the first chunk and fails on the second.
\<close>

definition stream_world :: "nat world" where
  "stream_world = test_world [Recv [1], Recv [2], Closed] [None, Some broken_pipe]"

definition stream_response :: "nat Response" where
  "stream_response =
     \<lparr>state = WithBodyFunc (ResponseBuilder test_request)
                (Some (fst (BinaryStreamData 0 test_request 0 stream_world)))\<rparr>"

section \<open>Properties\<close>

subsection \<open>The writer and the iterator\<close>

lemma wrote_Nil: "wrote [] wr = wr"
  by (simp add: wrote_def)

lemma Write_ok:
  "writes_ok (Suc n) wr \<Longrightarrow> Write wr b = (None, wrote [b] wr)"
  by (cases "script wr") (simp_all add: Write_def writes_ok_def wrote_def drop_Suc)

lemma writes_ok_wrote:
  "writes_ok (Suc n) wr \<Longrightarrow> writes_ok n (wrote [b] wr)"
  by (cases "script wr") (simp_all add: writes_ok_def wrote_def)

lemma wrote_Cons: "wrote cs (wrote [b] wr) = wrote (b # cs) wr"
  by (simp add: wrote_def drop_Suc drop_tl)

lemma each_events_ok:
  "writes_ok (length cs) (writers s w) \<Longrightarrow>
   each_events (map Recv cs @ es) (WriterWrite w) s =
   each_events es (WriterWrite w) (s\<lparr>writers := (writers s)(w := wrote cs (writers s w))\<rparr>)"
proof (induction cs arbitrary: s)
  case Nil
  then show ?case by (simp add: wrote_Nil)
next
  case (Cons b cs)
  let ?s1 = "s\<lparr>writers := (writers s)(w := wrote [b] (writers s w))\<rparr>"
  from Cons.prems have ok1: "writes_ok (Suc (length cs)) (writers s w)" by simp
  have step: "WriterWrite w b s = (None, ?s1)"
    by (simp add: WriterWrite_def Write_ok [OF ok1])
  have "writes_ok (length cs) (writers ?s1 w)"
    using writes_ok_wrote [OF ok1] by simp
  from Cons.IH [OF this]
  have ih: "each_events (map Recv cs @ es) (WriterWrite w) ?s1 =
        each_events es (WriterWrite w)
          (?s1\<lparr>writers := (writers ?s1)(w := wrote cs (writers ?s1 w))\<rparr>)" .
  have eq: "?s1\<lparr>writers := (writers ?s1)(w := wrote cs (writers ?s1 w))\<rparr> =
            s\<lparr>writers := (writers s)(w := wrote (b # cs) (writers s w))\<rparr>"
    by (simp add: wrote_Cons fun_upd_def fun_eq_iff)
  show ?case
    unfolding list.map append_Cons each_events.simps step prod.case option.case ih eq ..
qed

lemma Write_fails:
  "script wr = Some e # later \<Longrightarrow>
   Write wr b = (Some e, wr\<lparr>writes := writes wr @ [(b, Some e)], script := later\<rparr>)"
  by (simp add: Write_def Let_def)

lemma writes_ok_replicate:
  "script wr = replicate n None @ later \<Longrightarrow> writes_ok n wr"
  by (simp add: writes_ok_def list_all_iff)

lemma Each_after_chunks:
  assumes "feed s c = map Recv cs @ es"
    and "writes_ok (length cs) (writers s w)"
  shows "Each \<lparr>chan = c, sctx = k\<rparr> (WriterWrite w) s =
         (case each_events es (WriterWrite w)
                 (s\<lparr>writers := (writers s)(w := wrote cs (writers s w))\<rparr>) of
            (r, es', s') \<Rightarrow> (r, s'\<lparr>feed := (feed s')(c := es')\<rparr>))"
  using assms by (simp add: Each_def each_events_ok)


subsection \<open>The fixed buffer\<close>

text \<open>
  C8. For every buffer \<open>b\<close>, the producer \<open>BinaryData b\<close> returns \<open>(b, none)\<close> in every
  world and leaves the world as it was, so it does so however often it is called.
\<close>

theorem BinaryData_pure:
  "BinaryData b s = (Returns (b, None), s) \<and>
   ((\<lambda>t. snd (BinaryData b t)) ^^ n) s = s \<and>
   BinaryData b (((\<lambda>t. snd (BinaryData b t)) ^^ n) s) = (Returns (b, None), s)"
proof -
  have step: "(\<lambda>t::'a world. snd (BinaryData b t)) = id"
    by (rule ext) (simp add: BinaryData_def)
  show ?thesis
    by (simp add: step) (simp add: BinaryData_def)
qed

subsection \<open>The streaming producer\<close>

text \<open>
  C5. When the channel delivers the chunks \<open>cs\<close> and is then closed, and the writer
  accepts them, the producer returns the empty slice and no error, and the world it
  leaves differs from the one it found only in this: the writer has recorded exactly
  one successful \<^verbatim>\<open>Write\<close> per chunk of \<open>cs\<close>, in the order of \<open>cs\<close>, after what it held
  before, and the channel has been read up to and including its closure.
\<close>

theorem stream_writes_chunks_in_order:
  assumes "feed s c = map Recv cs @ Closed # rest"
    and "writes_ok (length cs) (writers s (Writer req))"
  shows "fst (BinaryStreamData k req c s0) s =
         (Returns ([], None),
          s\<lparr>writers := (writers s)(Writer req :=
                 (writers s (Writer req))
                   \<lparr>writes := writes (writers s (Writer req)) @ map (\<lambda>c. (c, None)) cs,
                    script := drop (length cs) (script (writers s (Writer req)))\<rparr>),
            feed := (feed s)(c := rest)\<rparr>)"
  using Each_after_chunks [OF assms, of k]
  by (simp add: BinaryStreamData_def BinaryStreamData_func_def FromChanWithContext_def
      Let_def wrote_def)

theorem stream_writes_chunks_in_order_witness:
  "feed (test_world [Recv [1], Recv [2, 3], Closed] []) 0 = map Recv [[1], [2, 3]] @ Closed # [] \<and>
   writes_ok (length [[1], [2, 3 :: byte]]) (writers (test_world [Recv [1], Recv [2, 3], Closed] []) (Writer test_request)) \<and>
   fst (fst (BinaryStreamData 0 test_request 0 (test_world [] []))
          (test_world [Recv [1], Recv [2, 3], Closed] [])) = Returns ([], None) \<and>
   writes (writers (snd (fst (BinaryStreamData 0 test_request 0 (test_world [] []))
          (test_world [Recv [1], Recv [2, 3], Closed] []))) 0) = [([1], None), ([2, 3], None)]"
  using stream_writes_chunks_in_order
    [of "test_world [Recv [1], Recv [2, 3], Closed] []" 0 "[[1], [2, 3]]" "[]" test_request 0
        "test_world [] []"]
  by (simp add: test_world_def test_request_def NewRequest_def Writer_def blank_writer_def
      writes_ok_def)




text \<open>
  C4, as amended. When the writer accepts the chunks \<open>cs\<close> and fails with \<open>e\<close> on the
  next chunk \<open>x\<close>, the producer stops there: the writer has recorded \<open>cs\<close>, then the
  failed write of \<open>x\<close>, and nothing after it, and the rest of the channel is left
  unread. The producer returns \<open>e\<close>, except when \<open>e\<close> is or wraps \<open>ErrContextDone\<close>:
  such an error is taken for a cancellation and the producer returns no error.
\<close>

theorem stream_write_failure:
  assumes "feed s c = map Recv cs @ Recv x # rest"
    and "script (writers s (Writer req)) = replicate (length cs) None @ Some e # later"
  shows "fst (BinaryStreamData k req c s0) s =
         (Returns ([], if errors_Is e ErrContextDone then None else Some e),
          s\<lparr>writers := (writers s)(Writer req :=
                 (writers s (Writer req))
                   \<lparr>writes := writes (writers s (Writer req)) @ map (\<lambda>c. (c, None)) cs @ [(x, Some e)],
                    script := later\<rparr>),
            feed := (feed s)(c := rest)\<rparr>)"
proof -
  let ?w = "Writer req"
  let ?s1 = "s\<lparr>writers := (writers s)(?w := wrote cs (writers s ?w))\<rparr>"
  have ok: "writes_ok (length cs) (writers s ?w)"
    using assms(2) by (rule writes_ok_replicate)
  have sc: "script (wrote cs (writers s ?w)) = Some e # later"
    using assms(2) by (simp add: wrote_def)
  have "Write (wrote cs (writers s ?w)) x =
        (Some e, (writers s ?w)
                   \<lparr>writes := writes (writers s ?w) @ map (\<lambda>c. (c, None)) cs @ [(x, Some e)],
                    script := later\<rparr>)"
    unfolding Write_fails [OF sc] by (simp add: wrote_def)
  then have wr: "WriterWrite ?w x ?s1 =
            (Some e, s\<lparr>writers := (writers s)(?w :=
                 (writers s ?w)
                   \<lparr>writes := writes (writers s ?w) @ map (\<lambda>c. (c, None)) cs @ [(x, Some e)],
                    script := later\<rparr>)\<rparr>)"
    by (simp add: WriterWrite_def)
  show ?thesis
    using Each_after_chunks [OF assms(1) ok, of k]
    by (simp add: BinaryStreamData_def BinaryStreamData_func_def FromChanWithContext_def
        Let_def wr)
qed

theorem stream_write_failure_witness:
  "feed stream_world 0 = map Recv [[1]] @ Recv [2] # [Closed] \<and>
   script (writers stream_world (Writer test_request)) =
     replicate (length [[1 :: byte]]) None @ Some broken_pipe # [] \<and>
   fst (fst (BinaryStreamData 0 test_request 0 stream_world) stream_world) =
     Returns ([], Some broken_pipe) \<and>
   writes (writers (snd (fst (BinaryStreamData 0 test_request 0 stream_world) stream_world)) 0) =
     [([1], None), ([2], Some broken_pipe)] \<and>
   feed (snd (fst (BinaryStreamData 0 test_request 0 stream_world) stream_world)) 0 = [Closed]"
  using stream_write_failure
    [of stream_world 0 "[[1]]" "[2]" "[Closed]" test_request broken_pipe "[]" 0 stream_world]
  by (simp add: stream_world_def test_world_def test_request_def NewRequest_def Writer_def
      blank_writer_def broken_pipe_def)

text \<open>
  The claim C4 as it is written fails for a writer whose \<^verbatim>\<open>Write\<close> returns the sentinel
  \<open>ErrContextDone\<close>: the write fails on the first chunk, and the producer returns no
  error.
\<close>

theorem stream_write_failure_counterexample:
  "fst (WriterWrite 0 [1] (test_world [Recv [1], Closed] [Some ErrContextDone])) = Some ErrContextDone \<and>
   fst (fst (BinaryStreamData 0 test_request 0 (test_world [] []))
          (test_world [Recv [1], Closed] [Some ErrContextDone])) \<noteq> Returns ([], Some ErrContextDone) \<and>
   fst (fst (BinaryStreamData 0 test_request 0 (test_world [] []))
          (test_world [Recv [1], Closed] [Some ErrContextDone])) = Returns ([], None)"
  by (simp add: BinaryStreamData_def BinaryStreamData_func_def FromChanWithContext_def
      Each_def WriterWrite_def Write_def Let_def test_world_def test_request_def
      NewRequest_def Writer_def blank_writer_def)


lemma WriterWrite_closes: "closes (snd (WriterWrite w v s)) = closes s"
  by (simp add: WriterWrite_def split: prod.split)

lemma each_events_closes:
  "closes (snd (snd (each_events es (WriterWrite w) s))) = closes s"
proof (induction es arbitrary: s)
  case Nil
  then show ?case by simp
next
  case (Cons ev es)
  show ?case
  proof (cases ev)
    case (Recv v)
    obtain r s1 where w: "WriterWrite w v s = (r, s1)"
      by (cases "WriterWrite w v s")
    have c1: "closes s1 = closes s"
      using WriterWrite_closes [of w v s] w by simp
    show ?thesis
      using Cons.IH [of s1] Recv w c1 by (cases r) simp_all
  qed simp_all
qed

lemma each_events_not_Panics:
  "fst (each_events es (WriterWrite w) s) \<noteq> Panics"
proof (induction es arbitrary: s)
  case Nil
  then show ?case by simp
next
  case (Cons ev es)
  show ?case
  proof (cases ev)
    case (Recv v)
    obtain r s1 where w: "WriterWrite w v s = (r, s1)"
      by (cases "WriterWrite w v s")
    show ?thesis
      using Cons.IH [of s1] Recv w by (cases r) simp_all
  qed simp_all
qed

lemma chunks_of_Recvs: "chunks_of (map Recv cs @ es) = cs @ chunks_of es"
  by (induction cs) simp_all

lemma world_writer_twice:
  "s\<lparr>writers := (writers s)(w := a)\<rparr>
     \<lparr>writers := (writers (s\<lparr>writers := (writers s)(w := a)\<rparr>))(w := b)\<rparr> =
   s\<lparr>writers := (writers s)(w := b)\<rparr>"
  by (simp add: fun_upd_def fun_eq_iff)

lemma each_events_lift:
  "each_events es (WriterWrite w) s =
   (case each_events es (\<lambda>v wr. Write wr v) (writers s w) of
      (r, es', wr') \<Rightarrow> (r, es', s\<lparr>writers := (writers s)(w := wr')\<rparr>))"
proof (induction es arbitrary: s)
  case Nil
  have "s\<lparr>writers := (writers s)(w := writers s w)\<rparr> = s" by simp
  then show ?case
    unfolding each_events.simps prod.case by simp
next
  case (Cons ev es)
  show ?case
  proof (cases ev)
    case (Recv v)
    obtain ro wr1 where W: "Write (writers s w) v = (ro, wr1)"
      by (cases "Write (writers s w) v")
    let ?s1 = "s\<lparr>writers := (writers s)(w := wr1)\<rparr>"
    have step: "WriterWrite w v s = (ro, ?s1)"
      by (simp add: WriterWrite_def W)
    show ?thesis
    proof (cases ro)
      case None
      have w1: "writers ?s1 w = wr1" by simp
      have ih: "each_events es (WriterWrite w) ?s1 =
            (case each_events es (\<lambda>v wr. Write wr v) wr1 of
               (r, es', wr') \<Rightarrow> (r, es', s\<lparr>writers := (writers s)(w := wr')\<rparr>))"
        unfolding Cons.IH [of ?s1] w1 world_writer_twice ..
      show ?thesis
        unfolding Recv each_events.simps step W None prod.case option.case by (fact ih)
    next
      case (Some e)
      show ?thesis
        unfolding Recv each_events.simps step W Some prod.case option.case ..
    qed
  next
    case Closed
    have "s\<lparr>writers := (writers s)(w := writers s w)\<rparr> = s" by simp
    then show ?thesis
      unfolding Closed each_events.simps prod.case by simp
  next
    case CtxDone
    have "s\<lparr>writers := (writers s)(w := writers s w)\<rparr> = s" by simp
    then show ?thesis
      unfolding CtxDone each_events.simps prod.case by simp
  qed
qed

lemma Write_None:
  "Write wr v = (None, wr1) \<Longrightarrow> wr1 = wrote [v] wr"
  by (auto simp: Write_def Let_def wrote_def drop_Suc)

lemma Write_None_ok:
  "Write wr v = (None, wr1) \<Longrightarrow> writes_ok n wr1 \<Longrightarrow> writes_ok (Suc n) wr"
  by (cases "script wr") (auto simp: Write_def Let_def writes_ok_def)

lemma Write_None_script:
  "Write wr v = (None, wr1) \<Longrightarrow> script wr1 = replicate n None @ Some e # later \<Longrightarrow>
   script wr = replicate (Suc n) None @ Some e # later"
  by (cases "script wr") (auto simp: Write_def Let_def)

lemma Write_Some_script:
  "Write wr v = (Some e, wr1) \<Longrightarrow>
   script wr = Some e # tl (script wr) \<and>
   wr1 = wr\<lparr>writes := writes wr @ [(v, Some e)], script := tl (script wr)\<rparr>"
  by (cases "script wr") (auto simp: Write_def Let_def)

lemma each_writer_shape:
  assumes "each_events es (\<lambda>v wr. Write wr v) wr = (r, es', wr')"
  shows "\<exists>cs.
     (es = map Recv cs @ Closed # es' \<and> writes_ok (length cs) wr \<and>
      wr' = wrote cs wr \<and> r = Returns None) \<or>
     (es = map Recv cs @ CtxDone # es' \<and> writes_ok (length cs) wr \<and>
      wr' = wrote cs wr \<and> r = Returns (Some ErrContextDone)) \<or>
     (\<exists>x e later.
        es = map Recv cs @ Recv x # es' \<and>
        script wr = replicate (length cs) None @ Some e # later \<and>
        wr' = wr\<lparr>writes := writes wr @ map (\<lambda>v. (v, None)) cs @ [(x, Some e)],
                 script := later\<rparr> \<and>
        r = Returns (Some e)) \<or>
     (es = map Recv cs \<and> es' = [] \<and> writes_ok (length cs) wr \<and>
      wr' = wrote cs wr \<and> r = Blocks)"
  using assms
proof (induction es arbitrary: wr)
  case Nil
  then have "[] = map Recv [] \<and> es' = [] \<and> writes_ok (length ([] :: bytes list)) wr \<and>
        wr' = wrote [] wr \<and> r = Blocks"
    by (simp add: writes_ok_def wrote_Nil)
  then show ?case by blast
next
  case (Cons ev es)
  show ?case
  proof (cases ev)
    case Closed
    with Cons.prems
    have "ev # es = map Recv [] @ Closed # es' \<and> writes_ok (length ([] :: bytes list)) wr \<and>
          wr' = wrote [] wr \<and> r = Returns None"
      by (simp add: writes_ok_def wrote_Nil)
    then show ?thesis by blast
  next
    case CtxDone
    with Cons.prems
    have "ev # es = map Recv [] @ CtxDone # es' \<and> writes_ok (length ([] :: bytes list)) wr \<and>
          wr' = wrote [] wr \<and> r = Returns (Some ErrContextDone)"
      by (simp add: writes_ok_def wrote_Nil)
    then show ?thesis by blast
  next
    case (Recv v)
    obtain ro wr1 where W: "Write wr v = (ro, wr1)"
      by (cases "Write wr v")
    show ?thesis
    proof (cases ro)
      case (Some e)
      with Cons.prems Recv W have r: "r = Returns (Some e)" and es: "es' = es" and wr: "wr' = wr1"
        by simp_all
      from Write_Some_script [OF W [unfolded Some]]
      have "ev # es = map Recv [] @ Recv v # es' \<and>
            script wr = replicate (length ([] :: bytes list)) None @ Some e # tl (script wr) \<and>
            wr' = wr\<lparr>writes := writes wr @ map (\<lambda>v. (v, None)) [] @ [(v, Some e)],
                     script := tl (script wr)\<rparr> \<and>
            r = Returns (Some e)"
        using r es wr Recv by simp
      then show ?thesis by blast
    next
      case None
      note W' = W [unfolded None]
      have wr1: "wr1 = wrote [v] wr" by (rule Write_None [OF W'])
      from Cons.prems Recv W None
      have run: "each_events es (\<lambda>v wr. Write wr v) wr1 = (r, es', wr')"
        by simp
      from Cons.IH [OF run] obtain cs where sh:
        "(es = map Recv cs @ Closed # es' \<and> writes_ok (length cs) wr1 \<and>
          wr' = wrote cs wr1 \<and> r = Returns None) \<or>
         (es = map Recv cs @ CtxDone # es' \<and> writes_ok (length cs) wr1 \<and>
          wr' = wrote cs wr1 \<and> r = Returns (Some ErrContextDone)) \<or>
         (\<exists>x e later.
            es = map Recv cs @ Recv x # es' \<and>
            script wr1 = replicate (length cs) None @ Some e # later \<and>
            wr' = wr1\<lparr>writes := writes wr1 @ map (\<lambda>v. (v, None)) cs @ [(x, Some e)],
                      script := later\<rparr> \<and>
            r = Returns (Some e)) \<or>
         (es = map Recv cs \<and> es' = [] \<and> writes_ok (length cs) wr1 \<and>
          wr' = wrote cs wr1 \<and> r = Blocks)"
        by blast
      have ok: "writes_ok (length cs) wr1 \<Longrightarrow> writes_ok (length (v # cs)) wr"
        using Write_None_ok [OF W'] by simp
      have wc: "wrote cs wr1 = wrote (v # cs) wr"
        by (simp add: wr1 wrote_Cons)
      have sc: "script wr1 = replicate (length cs) None @ Some e # later \<Longrightarrow>
                script wr = replicate (length (v # cs)) None @ Some e # later" for e later
        using Write_None_script [OF W'] by simp
      have wf: "wr1\<lparr>writes := writes wr1 @ map (\<lambda>v. (v, None)) cs @ [(x, Some e)],
                    script := later\<rparr> =
                wr\<lparr>writes := writes wr @ map (\<lambda>v. (v, None)) (v # cs) @ [(x, Some e)],
                   script := later\<rparr>" for x e later
        by (simp add: wr1 wrote_def)
      from sh consider
          (closed) "es = map Recv cs @ Closed # es'" "writes_ok (length cs) wr1"
            "wr' = wrote cs wr1" "r = Returns None"
        | (cancelled) "es = map Recv cs @ CtxDone # es'" "writes_ok (length cs) wr1"
            "wr' = wrote cs wr1" "r = Returns (Some ErrContextDone)"
        | (failed) x e later where "es = map Recv cs @ Recv x # es'"
            "script wr1 = replicate (length cs) None @ Some e # later"
            "wr' = wr1\<lparr>writes := writes wr1 @ map (\<lambda>v. (v, None)) cs @ [(x, Some e)],
                      script := later\<rparr>"
            "r = Returns (Some e)"
        | (blocked) "es = map Recv cs" "es' = []" "writes_ok (length cs) wr1"
            "wr' = wrote cs wr1" "r = Blocks"
        by blast
      then show ?thesis
      proof cases
        case closed
        then have "ev # es = map Recv (v # cs) @ Closed # es' \<and>
              writes_ok (length (v # cs)) wr \<and> wr' = wrote (v # cs) wr \<and> r = Returns None"
          using Recv ok wc by simp
        then show ?thesis by blast
      next
        case cancelled
        then have "ev # es = map Recv (v # cs) @ CtxDone # es' \<and>
              writes_ok (length (v # cs)) wr \<and> wr' = wrote (v # cs) wr \<and>
              r = Returns (Some ErrContextDone)"
          using Recv ok wc by simp
        then show ?thesis by blast
      next
        case failed
        then have "ev # es = map Recv (v # cs) @ Recv x # es' \<and>
              script wr = replicate (length (v # cs)) None @ Some e # later \<and>
              wr' = wr\<lparr>writes := writes wr @ map (\<lambda>v. (v, None)) (v # cs) @ [(x, Some e)],
                       script := later\<rparr> \<and>
              r = Returns (Some e)"
          using Recv sc [where e = e and later = later] wf [where x = x and e = e and later = later]
          by simp
        then show ?thesis by blast
      next
        case blocked
        then have "ev # es = map Recv (v # cs) \<and> es' = [] \<and>
              writes_ok (length (v # cs)) wr \<and> wr' = wrote (v # cs) wr \<and> r = Blocks"
          using Recv ok wc by simp
        then show ?thesis by - (rule exI [where x = "v # cs"], simp)
      qed
    qed
  qed
qed


lemma Each_lift:
  assumes "each_events (feed s c) (\<lambda>v wr. Write wr v) (writers s w) = (r, es', wr')"
  shows "Each \<lparr>chan = c, sctx = k\<rparr> (WriterWrite w) s =
         (r, s\<lparr>writers := (writers s)(w := wr'), feed := (feed s)(c := es')\<rparr>)"
proof -
  have "each_events (feed s c) (WriterWrite w) s =
        (r, es', s\<lparr>writers := (writers s)(w := wr')\<rparr>)"
    unfolding each_events_lift assms prod.case ..
  then show ?thesis
    by (simp add: Each_def)
qed

lemma producer_run:
  assumes "each_events (feed s c) (\<lambda>v wr. Write wr v) (writers s w) = (r, es', wr')"
  shows "BinaryStreamData_func \<lparr>chan = c, sctx = k\<rparr> w s =
         (case r of
            Returns None \<Rightarrow> Returns ([], None)
          | Returns (Some e) \<Rightarrow> Returns ([], if errors_Is e ErrContextDone then None else Some e)
          | Panics \<Rightarrow> Panics
          | Blocks \<Rightarrow> Blocks,
          s\<lparr>writers := (writers s)(w := wr'), feed := (feed s)(c := es')\<rparr>)"
  unfolding BinaryStreamData_func_def Let_def Each_lift [OF assms]
  by (simp split: result.split option.split)

lemma taken_prefix:
  "feed s c = pre @ feed s' c \<Longrightarrow> taken s s' c = pre"
  by (simp add: taken_def)

text \<open>
  C6. Every invocation of the producer ends in one of four ways: the channel is
  closed, the context is done, a \<^verbatim>\<open>Write\<close> fails, or the producer waits for ever on a
  channel that delivers nothing more. Whenever it returns, the slice it returns is
  empty. Whatever the outcome, the chunks passed to \<^verbatim>\<open>Write\<close> during the invocation are
  exactly the chunks taken from the channel, in the order taken, each in a call of its
  own, and the invocation changes nothing in the world but the request's writer and
  what is left on the channel: the payload reaches the writer through these calls and
  in no other way. The error returned is fixed by the way the stream ended: none
  after closure, none after cancellation, and after a failed \<^verbatim>\<open>Write\<close> the error of that
  call (none when that error is or wraps \<open>ErrContextDone\<close>).
\<close>

theorem stream_returns_empty:
  assumes "fst (BinaryStreamData k req c s0) s = (out, s')"
  shows "(\<forall>b err. out = Returns (b, err) \<longrightarrow> b = []) \<and>
     map fst (writes (writers s' (Writer req))) =
       map fst (writes (writers s (Writer req))) @ chunks_of (taken s s' c) \<and>
     (\<exists>cs rest.
        s' = s\<lparr>writers := (writers s)(Writer req := writers s' (Writer req)),
               feed := (feed s)(c := rest)\<rparr> \<and>
        ((feed s c = map Recv cs @ Closed # rest \<and>
          writes_ok (length cs) (writers s (Writer req)) \<and>
          writers s' (Writer req) = wrote cs (writers s (Writer req)) \<and>
          out = Returns ([], None)) \<or>
         (feed s c = map Recv cs @ CtxDone # rest \<and>
          writes_ok (length cs) (writers s (Writer req)) \<and>
          writers s' (Writer req) = wrote cs (writers s (Writer req)) \<and>
          out = Returns ([], None)) \<or>
         (\<exists>x e later.
            feed s c = map Recv cs @ Recv x # rest \<and>
            script (writers s (Writer req)) = replicate (length cs) None @ Some e # later \<and>
            writers s' (Writer req) =
              (writers s (Writer req))
                \<lparr>writes := writes (writers s (Writer req)) @ map (\<lambda>v. (v, None)) cs @ [(x, Some e)],
                 script := later\<rparr> \<and>
            out = Returns ([], if errors_Is e ErrContextDone then None else Some e)) \<or>
         (feed s c = map Recv cs \<and> rest = [] \<and>
          writes_ok (length cs) (writers s (Writer req)) \<and>
          writers s' (Writer req) = wrote cs (writers s (Writer req)) \<and>
          out = Blocks)))"
proof -
  let ?w = "Writer req"
  let ?old = "writers s ?w"
  obtain r es' wr' where
    ev: "each_events (feed s c) (\<lambda>v wr. Write wr v) ?old = (r, es', wr')"
    by (cases "each_events (feed s c) (\<lambda>v wr. Write wr v) ?old")
  have run: "BinaryStreamData_func \<lparr>chan = c, sctx = k\<rparr> ?w s = (out, s')"
    using assms by (simp add: BinaryStreamData_def FromChanWithContext_def Let_def)
  from run producer_run [OF ev, of k]
  have out: "out = (case r of
            Returns None \<Rightarrow> Returns ([], None)
          | Returns (Some e) \<Rightarrow> Returns ([], if errors_Is e ErrContextDone then None else Some e)
          | Panics \<Rightarrow> Panics
          | Blocks \<Rightarrow> Blocks)"
    and s': "s' = s\<lparr>writers := (writers s)(?w := wr'), feed := (feed s)(c := es')\<rparr>"
    by simp_all
  have wr': "writers s' ?w = wr'" and es': "feed s' c = es'"
    by (simp_all add: s')
  have frame: "s' = s\<lparr>writers := (writers s)(?w := writers s' ?w), feed := (feed s)(c := es')\<rparr>"
    unfolding wr' by (fact s')
  from each_writer_shape [OF ev] obtain cs where
    "(feed s c = map Recv cs @ Closed # es' \<and> writes_ok (length cs) ?old \<and>
      wr' = wrote cs ?old \<and> r = Returns None) \<or>
     (feed s c = map Recv cs @ CtxDone # es' \<and> writes_ok (length cs) ?old \<and>
      wr' = wrote cs ?old \<and> r = Returns (Some ErrContextDone)) \<or>
     (\<exists>x e later.
        feed s c = map Recv cs @ Recv x # es' \<and>
        script ?old = replicate (length cs) None @ Some e # later \<and>
        wr' = ?old\<lparr>writes := writes ?old @ map (\<lambda>v. (v, None)) cs @ [(x, Some e)],
                 script := later\<rparr> \<and>
        r = Returns (Some e)) \<or>
     (feed s c = map Recv cs \<and> es' = [] \<and> writes_ok (length cs) ?old \<and>
      wr' = wrote cs ?old \<and> r = Blocks)"
    by blast
  then consider
      (closed) "feed s c = map Recv cs @ Closed # es'" "writes_ok (length cs) ?old"
        "wr' = wrote cs ?old" "r = Returns None"
    | (cancelled) "feed s c = map Recv cs @ CtxDone # es'" "writes_ok (length cs) ?old"
        "wr' = wrote cs ?old" "r = Returns (Some ErrContextDone)"
    | (failed) x e later where "feed s c = map Recv cs @ Recv x # es'"
        "script ?old = replicate (length cs) None @ Some e # later"
        "wr' = ?old\<lparr>writes := writes ?old @ map (\<lambda>v. (v, None)) cs @ [(x, Some e)],
                  script := later\<rparr>"
        "r = Returns (Some e)"
    | (blocked) "feed s c = map Recv cs" "es' = []" "writes_ok (length cs) ?old"
        "wr' = wrote cs ?old" "r = Blocks"
    by blast
  then show ?thesis
  proof cases
    case closed
    have tk: "taken s s' c = map Recv cs @ [Closed]"
      by (rule taken_prefix) (simp add: closed(1) es')
    have o: "out = Returns ([], None)" by (simp add: out closed(4))
    have pay: "map fst (writes (writers s' ?w)) = map fst (writes ?old) @ chunks_of (taken s s' c)"
      by (simp add: tk chunks_of_Recvs wr' closed(3) wrote_def comp_def)
    have sh: "feed s c = map Recv cs @ Closed # es' \<and> writes_ok (length cs) ?old \<and>
          writers s' ?w = wrote cs ?old \<and> out = Returns ([], None)"
      using closed o wr' by simp
    from o pay frame sh show ?thesis by blast
  next
    case cancelled
    have tk: "taken s s' c = map Recv cs @ [CtxDone]"
      by (rule taken_prefix) (simp add: cancelled(1) es')
    have o: "out = Returns ([], None)" by (simp add: out cancelled(4))
    have pay: "map fst (writes (writers s' ?w)) = map fst (writes ?old) @ chunks_of (taken s s' c)"
      by (simp add: tk chunks_of_Recvs wr' cancelled(3) wrote_def comp_def)
    have sh: "feed s c = map Recv cs @ CtxDone # es' \<and> writes_ok (length cs) ?old \<and>
          writers s' ?w = wrote cs ?old \<and> out = Returns ([], None)"
      using cancelled o wr' by simp
    from o pay frame sh show ?thesis by blast
  next
    case failed
    have tk: "taken s s' c = map Recv cs @ [Recv x]"
      by (rule taken_prefix) (simp add: failed(1) es')
    have o: "out = Returns ([], if errors_Is e ErrContextDone then None else Some e)"
      by (simp add: out failed(4))
    have pay: "map fst (writes (writers s' ?w)) = map fst (writes ?old) @ chunks_of (taken s s' c)"
      by (simp add: tk chunks_of_Recvs wr' failed(3) comp_def)
    have sh: "feed s c = map Recv cs @ Recv x # es' \<and>
          script ?old = replicate (length cs) None @ Some e # later \<and>
          writers s' ?w = ?old\<lparr>writes := writes ?old @ map (\<lambda>v. (v, None)) cs @ [(x, Some e)],
                 script := later\<rparr> \<and>
          out = Returns ([], if errors_Is e ErrContextDone then None else Some e)"
      using failed(1,2,3) o wr' by simp
    from o pay frame sh show ?thesis by blast
  next
    case blocked
    have tk: "taken s s' c = map Recv cs"
      by (simp add: taken_def blocked(1,2) es')
    have o: "out = Blocks" by (simp add: out blocked(5))
    have pay: "map fst (writes (writers s' ?w)) = map fst (writes ?old) @ chunks_of (taken s s' c)"
      using chunks_of_Recvs [of cs "[]"]
      by (simp add: tk wr' blocked(4) wrote_def comp_def)
    have sh: "feed s c = map Recv cs \<and> es' = [] \<and> writes_ok (length cs) ?old \<and>
          writers s' ?w = wrote cs ?old \<and> out = Blocks"
      using blocked o wr' by simp
    from o pay frame sh show ?thesis by blast
  qed
qed

theorem stream_returns_empty_witness:
  "fst (BinaryStreamData 0 test_request 0 stream_world) stream_world =
     (Returns ([], Some broken_pipe),
      snd (fst (BinaryStreamData 0 test_request 0 stream_world) stream_world)) \<and>
   map fst (writes (writers
     (snd (fst (BinaryStreamData 0 test_request 0 stream_world) stream_world))
     (Writer test_request))) =
   map fst (writes (writers stream_world (Writer test_request))) @
   chunks_of (taken stream_world
     (snd (fst (BinaryStreamData 0 test_request 0 stream_world) stream_world)) 0) \<and>
   chunks_of (taken stream_world
     (snd (fst (BinaryStreamData 0 test_request 0 stream_world) stream_world)) 0) = [[1], [2]] \<and>
   writes (writers stream_world (Writer test_request)) = []"
proof -
  let ?s' = "snd (fst (BinaryStreamData 0 test_request 0 stream_world) stream_world)"
  have run: "fst (BinaryStreamData 0 test_request 0 stream_world) stream_world =
     (Returns ([], Some broken_pipe), ?s')"
    by (simp add: BinaryStreamData_def BinaryStreamData_func_def FromChanWithContext_def
        Each_def WriterWrite_def Write_def Let_def stream_world_def test_world_def
        test_request_def NewRequest_def Writer_def blank_writer_def broken_pipe_def)
  have tk: "chunks_of (taken stream_world ?s' 0) = [[1], [2]]"
    by (simp add: taken_def BinaryStreamData_def BinaryStreamData_func_def
        FromChanWithContext_def Each_def WriterWrite_def Write_def Let_def stream_world_def
        test_world_def test_request_def NewRequest_def Writer_def blank_writer_def
        broken_pipe_def)
  have old: "writes (writers stream_world (Writer test_request)) = []"
    by (simp add: stream_world_def test_world_def blank_writer_def)
  from stream_returns_empty [OF run] run tk old show ?thesis
    by blast
qed

text \<open>
  C2. What the code does: the deferred \<^verbatim>\<open>Close\<close> belongs to \<^verbatim>\<open>BinaryStreamData\<close>, not to
  the function literal it returns. The stream is closed once, when the producer is
  built and before it has iterated anything; an invocation of the producer never
  calls \<^verbatim>\<open>Close\<close>, on any exit path, and never panics.
\<close>

theorem stream_closed_at_construction:
  "closes (snd (BinaryStreamData k req c s0)) c = Suc (closes s0 c) \<and>
   closes (snd (fst (BinaryStreamData k req c s0) s)) = closes s \<and>
   fst (fst (BinaryStreamData k req c s0) s) \<noteq> Panics"
proof -
  let ?w = "Writer req"
  obtain r es1 s1 where ev: "each_events (feed s c) (WriterWrite ?w) s = (r, es1, s1)"
    by (cases "each_events (feed s c) (WriterWrite ?w) s")
  have c1: "closes s1 = closes s"
    using each_events_closes [of "feed s c" ?w s] ev by simp
  have np: "r \<noteq> Panics"
    using each_events_not_Panics [of "feed s c" ?w s] ev by simp
  have "closes (snd (BinaryStreamData_func \<lparr>chan = c, sctx = k\<rparr> ?w s)) = closes s"
    using ev c1
    by (simp add: BinaryStreamData_func_def Each_def Let_def
        split: result.splits option.splits)
  moreover have "fst (BinaryStreamData_func \<lparr>chan = c, sctx = k\<rparr> ?w s) \<noteq> Panics"
    using ev np
    by (simp add: BinaryStreamData_func_def Each_def Let_def
        split: result.splits option.splits)
  ultimately show ?thesis
    by (simp add: BinaryStreamData_def FromChanWithContext_def Close_def Let_def)
qed


subsection \<open>Send\<close>

text \<open>
  C3, as amended. For a response whose builder holds a producer \<open>f\<close>, \<open>Send\<close> is
  determined by one run of \<open>f\<close> in the world it is called in. If that run returns an
  error, \<open>Send\<close> returns this error and makes no \<^verbatim>\<open>Write\<close> call of its own: the world, and
  with it the writer, is left exactly as the producer left it (so unchanged when the
  producer itself does not write). If the run returns bytes \<open>b\<close> and no error, \<open>Send\<close>
  makes exactly one \<^verbatim>\<open>Write\<close> call, with \<open>b\<close>, on the request's writer, and returns what
  that call returned.
\<close>

theorem Send_runs_producer_once:
  assumes "bodyFunc (state r) = Some f"
    and "f s = (Returns (b, err), s')"
  shows "(\<forall>e. err = Some e \<longrightarrow> Send r s = (Returns (Some e), s')) \<and>
         (err = None \<longrightarrow>
            Send r s =
              (Returns (fst (Write (writers s' (Writer (request (state r)))) b)),
               s'\<lparr>writers := (writers s')(Writer (request (state r)) :=
                     snd (Write (writers s' (Writer (request (state r)))) b))\<rparr>) \<and>
            writes (writers (snd (Send r s)) (Writer (request (state r)))) =
              writes (writers s' (Writer (request (state r)))) @
                [(b, fst (Write (writers s' (Writer (request (state r)))) b))])"
proof -
  let ?w = "Writer (request (state r))"
  obtain out wr where W: "Write (writers s' ?w) b = (out, wr)"
    by (cases "Write (writers s' ?w) b")
  have wr: "writes wr = writes (writers s' ?w) @ [(b, out)]"
    using W by (auto simp: Write_def Let_def)
  show ?thesis
    using assms W wr
    by (cases out) (auto simp: Send_def WriterWrite_def)
qed

theorem Send_runs_producer_once_witness:
  "bodyFunc (state (\<lparr>state = WithBody (ResponseBuilder test_request) [104, 105]\<rparr> :: nat Response)) =
     Some (BinaryData [104, 105]) \<and>
   BinaryData [104, 105] (test_world [] []) = (Returns ([104, 105], None), test_world [] []) \<and>
   fst (Send \<lparr>state = WithBody (ResponseBuilder test_request) [104, 105]\<rparr> (test_world [] [])) =
     Returns None \<and>
   writes (writers (snd (Send \<lparr>state = WithBody (ResponseBuilder test_request) [104, 105]\<rparr>
     (test_world [] []))) 0) = [([104, 105], None)] \<and>
   Send \<lparr>state = WithBodyFunc (ResponseBuilder test_request)
           (Some (JSONData (\<lambda>_. ([], Some (ErrOther ''unsupported type''))) ()))\<rparr>
     (test_world [] []) = (Returns (Some (ErrOther ''unsupported type'')), test_world [] [])"
proof -
  let ?r1 = "\<lparr>state = WithBody (ResponseBuilder test_request) [104, 105]\<rparr> :: nat Response"
  let ?f2 = "JSONData (\<lambda>_. ([], Some (ErrOther ''unsupported type''))) () :: nat ResponseDataFunc"
  let ?r2 = "\<lparr>state = WithBodyFunc (ResponseBuilder test_request) (Some ?f2)\<rparr>"
  let ?s = "test_world [] []"
  have b1: "bodyFunc (state ?r1) = Some (BinaryData [104, 105])"
    by (simp add: WithBody_def ResponseBuilder_def)
  have f1: "BinaryData [104, 105] ?s = (Returns ([104, 105], None), ?s)"
    by (simp add: BinaryData_def)
  have b2: "bodyFunc (state ?r2) = Some ?f2"
    by (simp add: WithBodyFunc_def ResponseBuilder_def)
  have f2: "?f2 ?s = (Returns ([], Some (ErrOther ''unsupported type'')), ?s)"
    by (simp add: JSONData_def)
  have w0: "Writer (request (state ?r1)) = 0"
    by (simp add: WithBody_def ResponseBuilder_def test_request_def NewRequest_def Writer_def)
  have W: "Write (writers ?s 0) [104, 105] =
           (None, blank_writer\<lparr>writes := [([104, 105], None)]\<rparr>)"
    by (simp add: Write_def test_world_def blank_writer_def)
  from Send_runs_producer_once [OF b1 f1] Send_runs_producer_once [OF b2 f2] b1 f1
  show ?thesis
    unfolding w0 W by (simp add: test_world_def blank_writer_def)
qed

text \<open>
  The claim C3 as it is written fails for a producer that writes: the streaming
  producer of \<open>stream_response\<close> gets one chunk through and fails on the second, \<open>Send\<close>
  returns the write error, and the writer is not as it was before \<open>Send\<close>.
\<close>

theorem Send_runs_producer_once_counterexample:
  "fst (Send stream_response (snd (BinaryStreamData 0 test_request 0 stream_world))) =
     Returns (Some broken_pipe) \<and>
   writes (writers (snd (BinaryStreamData 0 test_request 0 stream_world)) 0) = [] \<and>
   writes (writers (snd (Send stream_response
     (snd (BinaryStreamData 0 test_request 0 stream_world)))) 0) =
     [([1], None), ([2], Some broken_pipe)]"
  by (simp add: Send_def stream_response_def WithBodyFunc_def ResponseBuilder_def
      BinaryStreamData_def BinaryStreamData_func_def FromChanWithContext_def Close_def
      Each_def WriterWrite_def Write_def Let_def stream_world_def test_world_def
      test_request_def NewRequest_def Writer_def blank_writer_def broken_pipe_def)

text \<open>
  C7. Let a pure producer (one that returns the same result in every world and
  leaves the world alone) be installed under a counting observer. Every \<open>Send\<close>
  returns, and after \<open>n\<close> calls of \<open>Send\<close> in a row the observer has counted exactly \<open>n\<close>
  invocations more: no call is answered from an earlier result.
\<close>

theorem Send_reinvokes_producer:
  "user (((\<lambda>t. snd (Send \<lparr>state = WithBodyFunc (ResponseBuilder req)
              (Some (counted (\<lambda>t. (Returns res, t))))\<rparr> t)) ^^ n) s) = user s + n \<and>
   (\<exists>out. fst (Send \<lparr>state = WithBodyFunc (ResponseBuilder req)
              (Some (counted (\<lambda>t. (Returns res, t))))\<rparr> s) = Returns out)"
proof -
  let ?r = "\<lparr>state = WithBodyFunc (ResponseBuilder req)
              (Some (counted (\<lambda>t. (Returns res, t))))\<rparr> :: nat Response"
  have one: "user (snd (Send ?r t)) = Suc (user t)" for t
    by (cases res)
      (auto simp: Send_def WithBodyFunc_def ResponseBuilder_def counted_def WriterWrite_def
        split: option.splits prod.splits)
  have many: "user (((\<lambda>t. snd (Send ?r t)) ^^ n) s) = user s + n"
    by (induction n) (simp_all add: one)
  have ret: "\<exists>out. fst (Send ?r s) = Returns out"
    by (cases res)
      (auto simp: Send_def WithBodyFunc_def ResponseBuilder_def counted_def WriterWrite_def
        split: option.splits prod.splits)
  from many ret show ?thesis by simp
qed

text \<open>
  C10. The builder that \<open>ResponseBuilder\<close> creates has no producer, calls of
  \<open>WithHeader\<close> and \<open>WithStatus\<close> install none, and \<open>Send\<close> on a response over such a
  builder calls the nil function: it panics, in every world, without returning an
  error and without touching the world.
\<close>

theorem Send_without_producer_panics:
  "bodyFunc (ResponseBuilder req :: 'u responseBuilder) = None \<and>
   bodyFunc (fst (foldl builder_step (ResponseBuilder req, s0 :: 'u world) ops)) = None \<and>
   Send \<lparr>state = fst (foldl builder_step (ResponseBuilder req, s0) ops)\<rparr> s = (Panics, s)"
proof -
  have step: "bodyFunc (fst (builder_step p opn)) = bodyFunc (fst p)"
    for p :: "'u responseBuilder \<times> 'u world" and opn
    by (cases p; cases opn) (simp_all add: WithHeader_def WithStatus_def Let_def)
  have keep: "bodyFunc (fst (foldl builder_step p ops)) = bodyFunc (fst p)"
    for p :: "'u responseBuilder \<times> 'u world"
    by (induction ops arbitrary: p) (simp_all add: step)
  have none: "bodyFunc (fst (foldl builder_step (ResponseBuilder req, s0) ops)) = None"
    by (simp add: keep ResponseBuilder_def)
  show ?thesis
    using none by (simp add: Send_def ResponseBuilder_def)
qed

subsection \<open>Request\<close>

text \<open>
  C9, as amended. Whatever methods are called on a request, in whatever order, its
  identifier, HTTP request, writer and context stay what \<open>NewRequest\<close> made them. Its
  session name is the default until \<open>WithSessionName\<close> is called, and every call of
  \<open>WithSessionName\<close> replaces it, however many calls or reads came before: nothing
  limits overriding to once or to the time before first use.
\<close>

theorem Request_only_sessionName_changes:
  "req_id (foldl request_step r ops) = req_id r \<and>
   httpRequest (foldl request_step r ops) = httpRequest r \<and>
   writer (foldl request_step r ops) = writer r \<and>
   ctx (foldl request_step r ops) = ctx r \<and>
   sessionName (NewRequest uid c h w) = SessionName \<and>
   sessionName (foldl request_step r (ops @ [OpWithSessionName n])) = n"
proof -
  have step: "req_id (request_step q opn) = req_id q \<and>
              httpRequest (request_step q opn) = httpRequest q \<and>
              writer (request_step q opn) = writer q \<and>
              ctx (request_step q opn) = ctx q" for q opn
    by (cases opn) (simp_all add: WithSessionName_def)
  have frame: "req_id (foldl request_step q ops) = req_id q \<and>
               httpRequest (foldl request_step q ops) = httpRequest q \<and>
               writer (foldl request_step q ops) = writer q \<and>
               ctx (foldl request_step q ops) = ctx q" for q
    by (induction ops arbitrary: q) (simp_all add: step)
  show ?thesis
    using frame [of r] by (simp add: NewRequest_def WithSessionName_def)
qed

text \<open>
  The claim C9 as it is written fails: a second override, made after the name has
  been overridden once and read, still takes effect.
\<close>

theorem Request_only_sessionName_changes_counterexample:
  "SessionName_of (WithSessionName (NewRequest 1 0 0 0) ''a'') = ''a'' \<and>
   sessionName (foldl request_step (NewRequest 1 0 0 0)
                  [OpWithSessionName ''a'', OpSessionName, OpWithSessionName ''b'']) = ''b'' \<and>
   sessionName (foldl request_step (NewRequest 1 0 0 0)
                  [OpWithSessionName ''a'', OpSessionName, OpWithSessionName ''b'']) \<noteq>
   sessionName (foldl request_step (NewRequest 1 0 0 0) [OpWithSessionName ''a'', OpSessionName])"
  by (simp add: NewRequest_def WithSessionName_def SessionName_of_def)

end
